theory Spec2Isabelle
  imports Complex_Main
begin

section \<open>Data model (route-optmizer.py, lines 8--35)\<close>

text \<open>
  Python floats are modelled as real numbers. The route builder only adds, compares and
  takes maxima of times, so the control flow of the model is the control flow of the code
  wherever the float operations are exact or order preserving.
\<close>

record Location =
  name :: string
  lat :: real
  lon :: real

record Restaurant =
  location :: Location
  prep_time :: real

text \<open>The field \<open>id\<close> of the source is \<open>order_id\<close> here (\<open>id\<close> is the identity of HOL).\<close>

record Order =
  order_id :: string
  restaurant :: Restaurant
  customer :: Location

text \<open>
  The attribute \<open>location\<close> of the state is \<open>location_st\<close> here, since
  \<open>location\<close> is the field of a restaurant.
\<close>

record DeliveryState =
  location_st :: Location
  time :: real
  picked_up_orders :: "string set"
  delivered_orders :: "string set"
  restaurant_arrival_times :: "string \<rightharpoonup> real"

text \<open>\<open>DeliveryState.__init__\<close>: both sets and the dictionary start empty.\<close>

definition new_state :: "Location \<Rightarrow> real \<Rightarrow> DeliveryState" where
  "new_state current_location current_time =
     \<lparr>location_st = current_location, time = current_time,
      picked_up_orders = {}, delivered_orders = {},
      restaurant_arrival_times = Map.empty\<rparr>"

text \<open>
  A timeline entry is a dictionary with an \<open>action\<close> key; the three shapes the code
  builds are the three constructors: location name, order identifier, and the time or the
  start and end times.
\<close>

datatype event =
    Waiting string string real real
  | Pickup string string real
  | Delivery string string real

section \<open>Geospatial distance (lines 40--63)\<close>

definition EARTH_RADIUS :: real where
  "EARTH_RADIUS = 6371"

definition AVG_SPEED :: real where
  "AVG_SPEED = 20"

text \<open>\<open>math.radians\<close>.\<close>

definition radians :: "real \<Rightarrow> real" where
  "radians d = d * pi / 180"

definition haversine_distance :: "Location \<Rightarrow> Location \<Rightarrow> real" where
  "haversine_distance loc1 loc2 =
     (let lat1 = radians (lat loc1); lon1 = radians (lon loc1);
          lat2 = radians (lat loc2); lon2 = radians (lon loc2);
          dlat = lat2 - lat1;
          dlon = lon2 - lon1;
          a = (sin (dlat / 2))\<^sup>2 + cos lat1 * cos lat2 * (sin (dlon / 2))\<^sup>2;
          c = 2 * arcsin (sqrt a)
      in EARTH_RADIUS * c)"

definition travel_time :: "Location \<Rightarrow> Location \<Rightarrow> real" where
  "travel_time loc1 loc2 =
     (let distance = haversine_distance loc1 loc2
      in (distance / AVG_SPEED) * 60)"

section \<open>Candidate search (lines 65--106)\<close>

text \<open>
  The three running variables \<open>best_location\<close>, \<open>best_order_id\<close> and
  \<open>best_arrival_time\<close> are always assigned together, so they are one optional triple:
  \<open>None\<close> is the initial \<open>(None, None, float('inf'))\<close>.
\<close>

type_synonym best = "(Location \<times> string \<times> real) option"

text \<open>\<open>arrival_time < best_arrival_time\<close>: every time is below the initial infinity.\<close>

fun improves :: "real \<Rightarrow> best \<Rightarrow> bool" where
  "improves arrival_time None = True"
| "improves arrival_time (Some (best_location, best_order_id, best_arrival_time)) =
     (arrival_time < best_arrival_time)"

text \<open>The restaurant check of the loop body (lines 86--94).\<close>

definition check_pickup :: "DeliveryState \<Rightarrow> bool \<Rightarrow> Order \<Rightarrow> best \<Rightarrow> best" where
  "check_pickup state waiting_required order best =
     (if order_id order \<notin> picked_up_orders state \<and>
         (\<not> waiting_required \<or>
          time state + travel_time (location_st state) (location (restaurant order))
            < prep_time (restaurant order))
      then (let arrival_time =
                  time state + travel_time (location_st state) (location (restaurant order))
            in if improves arrival_time best
               then Some (location (restaurant order), order_id order, arrival_time)
               else best)
      else best)"

text \<open>The customer check of the loop body (lines 97--104).\<close>

definition check_delivery :: "DeliveryState \<Rightarrow> Order \<Rightarrow> best \<Rightarrow> best" where
  "check_delivery state order best =
     (if order_id order \<in> picked_up_orders state \<and>
         order_id order \<notin> delivered_orders state
      then (let arrival_time = time state + travel_time (location_st state) (customer order)
            in if improves arrival_time best
               then Some (customer order, order_id order, arrival_time)
               else best)
      else best)"

text \<open>
  The \<open>for\<close> loop over the orders. The state is threaded through and handed back with
  the result, so that what the search does to it is part of the model.
\<close>

fun scan_orders :: "DeliveryState \<Rightarrow> bool \<Rightarrow> Order list \<Rightarrow> best \<Rightarrow> best \<times> DeliveryState" where
  "scan_orders state waiting_required [] best = (best, state)"
| "scan_orders state waiting_required (order # rest) best =
     scan_orders state waiting_required rest
       (check_delivery state order (check_pickup state waiting_required order best))"

definition find_nearest_valid_location ::
    "DeliveryState \<Rightarrow> Order list \<Rightarrow> bool \<Rightarrow> best \<times> DeliveryState" where
  "find_nearest_valid_location state orders waiting_required =
     scan_orders state waiting_required orders None"

section \<open>Route builder (lines 108--167)\<close>

datatype error = StopIteration

type_synonym loop_vars = "DeliveryState \<times> Location list \<times> event list"

text \<open>Lines 121--125: the search without waiting, then the retry with the flag set.\<close>

definition select_next :: "DeliveryState \<Rightarrow> Order list \<Rightarrow> best \<times> DeliveryState" where
  "select_next state orders =
     (case find_nearest_valid_location state orders False of
        (None, state1) \<Rightarrow> find_nearest_valid_location state1 orders True
      | (Some found, state1) \<Rightarrow> (Some found, state1))"

text \<open>Lines 135--153: the restaurant branch.\<close>

definition handle_restaurant ::
    "DeliveryState \<Rightarrow> event list \<Rightarrow> Location \<Rightarrow> string \<Rightarrow> Order \<Rightarrow> DeliveryState \<times> event list" where
  "handle_restaurant state timeline next_loc oid matching_order =
     (let prep_end_time = max (time state) (prep_time (restaurant matching_order));
          (state1, timeline1) =
            (if prep_end_time > time state
             then (state\<lparr>time := prep_end_time\<rparr>,
                   timeline @ [Waiting (name next_loc) oid (time state) prep_end_time])
             else (state, timeline));
          state2 = state1\<lparr>picked_up_orders := insert oid (picked_up_orders state1)\<rparr>
      in (state2, timeline1 @ [Pickup (name next_loc) oid (time state2)]))"

text \<open>Lines 155--162: the customer branch.\<close>

definition handle_customer ::
    "DeliveryState \<Rightarrow> event list \<Rightarrow> Location \<Rightarrow> string \<Rightarrow> DeliveryState \<times> event list" where
  "handle_customer state timeline next_loc oid =
     (let state1 = state\<lparr>delivered_orders := insert oid (delivered_orders state)\<rparr>
      in (state1, timeline @ [Delivery (name next_loc) oid (time state1)]))"

text \<open>
  Lines 128--165, for a candidate that was found. \<open>next(o for o in orders if ...)\<close>
  raises \<open>StopIteration\<close> when no order has the identifier.
\<close>

definition visit ::
    "Order list \<Rightarrow> loop_vars \<Rightarrow> Location \<times> string \<times> real \<Rightarrow> error + loop_vars" where
  "visit orders vars found =
     (case vars of (state, route, timeline) \<Rightarrow>
      case found of (next_loc, oid, arrival_time) \<Rightarrow>
        (let state1 = state\<lparr>time := arrival_time\<rparr>
         in case find (\<lambda>ord. order_id ord = oid) orders of
              None \<Rightarrow> Inl StopIteration
            | Some matching_order \<Rightarrow>
                (let (state2, timeline1) =
                       (if next_loc = location (restaurant matching_order)
                        then handle_restaurant state1 timeline next_loc oid matching_order
                        else handle_customer state1 timeline next_loc oid)
                 in Inr (state2\<lparr>location_st := next_loc\<rparr>, route @ [next_loc], timeline1))))"

text \<open>One pass through the body of the \<open>while\<close> loop (lines 120--165).\<close>

definition loop_body :: "Order list \<Rightarrow> loop_vars \<Rightarrow> error + loop_vars" where
  "loop_body orders vars =
     (case vars of (state, route, timeline) \<Rightarrow>
      case select_next state orders of
        (None, state1) \<Rightarrow> Inr (state1, route, timeline)
      | (Some found, state1) \<Rightarrow> visit orders (state1, route, timeline) found)"

text \<open>The loop condition of line 119; \<open>len\<close> of a set is its cardinality.\<close>

definition loop_cond :: "Order list \<Rightarrow> loop_vars \<Rightarrow> bool" where
  "loop_cond orders vars =
     (case vars of (state, route, timeline) \<Rightarrow>
        card (delivered_orders state) < length orders)"

text \<open>What line 167 returns from the loop variables.\<close>

definition result_of :: "loop_vars \<Rightarrow> Location list \<times> real \<times> event list" where
  "result_of vars = (case vars of (state, route, timeline) \<Rightarrow> (route, time state, timeline))"

text \<open>
  The \<open>while\<close> loop, with fuel: each pass through the body costs one unit, and
  \<open>None\<close> says that the fuel ran out before the loop condition became false. A raised
  exception ends the run with \<open>Inl\<close>.
\<close>

fun optimize_loop ::
    "nat \<Rightarrow> Order list \<Rightarrow> loop_vars \<Rightarrow> (error + Location list \<times> real \<times> event list) option" where
  "optimize_loop 0 orders vars =
     (if loop_cond orders vars then None else Some (Inr (result_of vars)))"
| "optimize_loop (Suc n) orders vars =
     (if loop_cond orders vars
      then (case loop_body orders vars of
              Inl e \<Rightarrow> Some (Inl e)
            | Inr vars1 \<Rightarrow> optimize_loop n orders vars1)
      else Some (Inr (result_of vars)))"

definition initial_vars :: "Location \<Rightarrow> loop_vars" where
  "initial_vars driver_location = (new_state driver_location 0, [], [])"

definition optimize_route ::
    "nat \<Rightarrow> Location \<Rightarrow> Order list \<Rightarrow> (error + Location list \<times> real \<times> event list) option" where
  "optimize_route fuel driver_location orders =
     optimize_loop fuel orders (initial_vars driver_location)"

text \<open>
  One turn of the \<open>while\<close> loop: the test of the condition and, when it holds, the
  body. \<open>loop_after n\<close> gives the loop variables after \<open>n\<close> turns (a turn taken
  after the condition has become false changes nothing): the states a run goes through.
\<close>

definition loop_turn :: "Order list \<Rightarrow> loop_vars \<Rightarrow> error + loop_vars" where
  "loop_turn orders vars = (if loop_cond orders vars then loop_body orders vars else Inr vars)"

fun loop_after :: "nat \<Rightarrow> Order list \<Rightarrow> loop_vars \<Rightarrow> error + loop_vars" where
  "loop_after 0 orders vars = Inr vars"
| "loop_after (Suc n) orders vars =
     (case loop_after n orders vars of
        Inl e \<Rightarrow> Inl e
      | Inr vars1 \<Rightarrow> loop_turn orders vars1)"

section \<open>The candidate search, as the specification words it\<close>

type_synonym candidate = "Location \<times> string \<times> real"

definition arrival :: "candidate \<Rightarrow> real" where
  "arrival c = snd (snd c)"

text \<open>The two conditions of lines 86--88 and 97--98, on one order.\<close>

definition eligible_pickup :: "DeliveryState \<Rightarrow> bool \<Rightarrow> Order \<Rightarrow> bool" where
  "eligible_pickup state waiting_required order =
     (order_id order \<notin> picked_up_orders state \<and>
      (\<not> waiting_required \<or>
       time state + travel_time (location_st state) (location (restaurant order))
         < prep_time (restaurant order)))"

definition eligible_delivery :: "DeliveryState \<Rightarrow> Order \<Rightarrow> bool" where
  "eligible_delivery state order =
     (order_id order \<in> picked_up_orders state \<and> order_id order \<notin> delivered_orders state)"

text \<open>
  The candidate moves of one order, and of the order list in input order, each with its
  arrival time \<open>state.time + travel_time(state.location, candidate location)\<close>.
\<close>

definition order_candidates :: "DeliveryState \<Rightarrow> bool \<Rightarrow> Order \<Rightarrow> candidate list" where
  "order_candidates state waiting_required order =
     (if eligible_pickup state waiting_required order
      then [(location (restaurant order), order_id order,
             time state + travel_time (location_st state) (location (restaurant order)))]
      else []) @
     (if eligible_delivery state order
      then [(customer order, order_id order,
             time state + travel_time (location_st state) (customer order))]
      else [])"

definition eligible_candidates :: "DeliveryState \<Rightarrow> bool \<Rightarrow> Order list \<Rightarrow> candidate list" where
  "eligible_candidates state waiting_required orders =
     concat (map (order_candidates state waiting_required) orders)"

text \<open>
  The candidate at position \<open>i\<close> is the first nearest one: no candidate arrives earlier,
  and every candidate before it arrives strictly later.
\<close>

definition first_nearest :: "candidate list \<Rightarrow> nat \<Rightarrow> bool" where
  "first_nearest cs i =
     (i < length cs \<and>
      (\<forall>j < length cs. arrival (cs ! i) \<le> arrival (cs ! j)) \<and>
      (\<forall>j < i. arrival (cs ! i) < arrival (cs ! j)))"

text \<open>The update of the running best by one candidate (lines 91--94 and 101--104).\<close>

definition take_better :: "best \<Rightarrow> candidate \<Rightarrow> best" where
  "take_better best c = (if improves (arrival c) best then Some c else best)"

text \<open>
  The pickup rule in the words of the specification, for an order that is not yet picked up:
  without the flag the arrival must be strictly before the preparation time, with the flag
  there is no constraint.
\<close>

definition spec_pickup_rule :: "DeliveryState \<Rightarrow> bool \<Rightarrow> Order \<Rightarrow> bool" where
  "spec_pickup_rule state waiting_required order =
     ((\<not> waiting_required \<and>
       time state + travel_time (location_st state) (location (restaurant order))
         < prep_time (restaurant order))
      \<or> waiting_required)"

section \<open>Runs of the route builder\<close>

text \<open>
  The loop variables after a restaurant visit and after a customer visit of order
  \<open>ord\<close> reached at time \<open>t\<close>: what lines 130--165 do in their two branches.
\<close>

definition after_pickup :: "loop_vars \<Rightarrow> Order \<Rightarrow> real \<Rightarrow> loop_vars" where
  "after_pickup vars ord t =
     (case vars of (state, route, timeline) \<Rightarrow>
        (let loc = location (restaurant ord);
             prep_end_time = max t (prep_time (restaurant ord))
         in (state\<lparr>location_st := loc, time := prep_end_time,
                    picked_up_orders := insert (order_id ord) (picked_up_orders state)\<rparr>,
             route @ [loc],
             timeline @
               (if prep_end_time > t then [Waiting (name loc) (order_id ord) t prep_end_time]
                else []) @
               [Pickup (name loc) (order_id ord) prep_end_time])))"

definition after_delivery :: "loop_vars \<Rightarrow> Order \<Rightarrow> real \<Rightarrow> loop_vars" where
  "after_delivery vars ord t =
     (case vars of (state, route, timeline) \<Rightarrow>
        (state\<lparr>location_st := customer ord, time := t,
                delivered_orders := insert (order_id ord) (delivered_orders state)\<rparr>,
         route @ [customer ord],
         timeline @ [Delivery (name (customer ord)) (order_id ord) t]))"

text \<open>Readers of timeline events: order identifier, time (end time of a wait), kind.\<close>

fun event_order :: "event \<Rightarrow> string" where
  "event_order (Waiting l i s e) = i"
| "event_order (Pickup l i t) = i"
| "event_order (Delivery l i t) = i"

fun event_end :: "event \<Rightarrow> real" where
  "event_end (Waiting l i s e) = e"
| "event_end (Pickup l i t) = t"
| "event_end (Delivery l i t) = t"

fun is_pickup :: "event \<Rightarrow> bool" where
  "is_pickup (Pickup l i t) = True"
| "is_pickup ev = False"

fun is_delivery :: "event \<Rightarrow> bool" where
  "is_delivery (Delivery l i t) = True"
| "is_delivery ev = False"

definition pickup_ids :: "event list \<Rightarrow> string list" where
  "pickup_ids timeline = map event_order (filter is_pickup timeline)"

definition delivery_ids :: "event list \<Rightarrow> string list" where
  "delivery_ids timeline = map event_order (filter is_delivery timeline)"

text \<open>
  What holds of the loop variables throughout a run on orders with pairwise distinct
  identifiers.
\<close>

definition consistent :: "Order list \<Rightarrow> loop_vars \<Rightarrow> bool" where
  "consistent orders vars =
     (case vars of (state, route, timeline) \<Rightarrow>
        delivered_orders state \<subseteq> picked_up_orders state \<and>
        picked_up_orders state \<subseteq> order_id ` set orders \<and>
        (\<forall>ev \<in> set timeline. event_end ev \<le> time state) \<and>
        (\<forall>ev \<in> set timeline. event_order ev \<in> picked_up_orders state) \<and>
        (\<forall>ev \<in> set timeline. is_delivery ev \<longrightarrow> event_order ev \<in> delivered_orders state) \<and>
        (\<forall>i \<in> picked_up_orders state. \<exists>ev \<in> set timeline. is_pickup ev \<and> event_order ev = i) \<and>
        (\<forall>i \<in> delivered_orders state. \<exists>ev \<in> set timeline. is_delivery ev \<and> event_order ev = i) \<and>
        (\<forall>ord \<in> set orders. order_id ord \<in> delivered_orders state
           \<longrightarrow> customer ord \<noteq> location (restaurant ord)) \<and>
        (\<forall>p \<in> set timeline. \<forall>d \<in> set timeline.
           is_pickup p \<longrightarrow> is_delivery d \<longrightarrow> event_order p = event_order d
             \<longrightarrow> event_end p \<le> event_end d))"

text \<open>
  No order is delivered to the very location of its restaurant (same name, latitude and
  longitude): the orders on which line 134 tells a delivery from a pickup.
\<close>

definition separate_stops :: "Order list \<Rightarrow> bool" where
  "separate_stops orders =
     (\<forall>ord \<in> set orders. customer ord \<noteq> location (restaurant ord))"

text \<open>One route entry per pickup and delivery event, and no repeated pickup or delivery.\<close>

definition tidy :: "loop_vars \<Rightarrow> bool" where
  "tidy vars =
     (case vars of (state, route, timeline) \<Rightarrow>
        distinct (pickup_ids timeline) \<and> distinct (delivery_ids timeline) \<and>
        length route = length (pickup_ids timeline) + length (delivery_ids timeline))"

text \<open>
  A result covers the orders: the route has two stops per order, and the identifiers of the
  pickup events, like those of the delivery events, are the order identifiers, each once.
\<close>

definition complete :: "Order list \<Rightarrow> Location list \<times> real \<times> event list \<Rightarrow> bool" where
  "complete orders res =
     (case res of (route, total_time, timeline) \<Rightarrow>
        length route = 2 * length orders \<and>
        distinct (pickup_ids timeline) \<and>
        set (pickup_ids timeline) = order_id ` set orders \<and>
        distinct (delivery_ids timeline) \<and>
        set (delivery_ids timeline) = order_id ` set orders)"

section \<open>Concrete inputs\<close>

text \<open>
  Locations, restaurants and orders used to evaluate the functions. Two locations with the
  same coordinates are at distance zero, in the floats of the code as in the reals of the
  model, so the runs below go through the same branches in both.
\<close>

definition at_origin :: "string \<Rightarrow> Location" where
  "at_origin n = \<lparr>name = n, lat = 0, lon = 0\<rparr>"

definition antipode :: "string \<Rightarrow> Location" where
  "antipode n = \<lparr>name = n, lat = 0, lon = 180\<rparr>"

definition mk_order :: "string \<Rightarrow> Location \<Rightarrow> real \<Rightarrow> Location \<Rightarrow> Order" where
  "mk_order i rloc prep cust =
     \<lparr>order_id = i, restaurant = \<lparr>location = rloc, prep_time = prep\<rparr>, customer = cust\<rparr>"

section \<open>Distances and travel times are never negative\<close>

text \<open>
  The quantity \<open>a\<close> of line 55 is half of one minus the cosine of the central angle, so it
  lies between 0 and 1 for all latitudes and longitudes: \<open>math.sqrt\<close> and
  \<open>math.asin\<close> are applied inside their domains, where the real square root and arc sine
  are what they compute, and the result is not negative.
\<close>

lemma sin_sq_half:
  fixes x :: real
  shows "(sin (x / 2))\<^sup>2 = (1 - cos x) / 2"
proof -
  have "cos x = cos (2 * (x / 2))" by simp
  also have "\<dots> = 1 - 2 * (sin (x / 2))\<^sup>2" by (rule cos_double_sin)
  finally show ?thesis by simp
qed

lemma hav_identity:
  fixes p1 p2 l :: real
  shows "(sin ((p2 - p1) / 2))\<^sup>2 + cos p1 * cos p2 * (sin (l / 2))\<^sup>2
         = (1 - (sin p1 * sin p2 + cos p1 * cos p2 * cos l)) / 2"
  unfolding sin_sq_half by (simp add: cos_diff field_simps)

lemma dot_bound:
  fixes p1 p2 l :: real
  shows "\<bar>sin p1 * sin p2 + cos p1 * cos p2 * cos l\<bar> \<le> 1"
proof -
  have c: "\<bar>cos l\<bar> \<le> 1" by simp
  have "\<bar>cos p1 * cos p2 * cos l\<bar> = \<bar>cos p1 * cos p2\<bar> * \<bar>cos l\<bar>"
    by (simp add: abs_mult)
  also have "\<dots> \<le> \<bar>cos p1 * cos p2\<bar> * 1"
    by (rule mult_left_mono) (use c in auto)
  finally have d: "\<bar>cos p1 * cos p2 * cos l\<bar> \<le> \<bar>cos p1\<bar> * \<bar>cos p2\<bar>"
    by (simp add: abs_mult)
  have e: "2 * (\<bar>sin p1\<bar> * \<bar>sin p2\<bar>) \<le> (sin p1)\<^sup>2 + (sin p2)\<^sup>2"
    using sum_squares_bound [of "\<bar>sin p1\<bar>" "\<bar>sin p2\<bar>"] by simp
  have f: "2 * (\<bar>cos p1\<bar> * \<bar>cos p2\<bar>) \<le> (cos p1)\<^sup>2 + (cos p2)\<^sup>2"
    using sum_squares_bound [of "\<bar>cos p1\<bar>" "\<bar>cos p2\<bar>"] by simp
  have g: "(sin p1)\<^sup>2 + (cos p1)\<^sup>2 = 1" "(sin p2)\<^sup>2 + (cos p2)\<^sup>2 = 1"
    by simp_all
  have "\<bar>sin p1\<bar> * \<bar>sin p2\<bar> + \<bar>cos p1\<bar> * \<bar>cos p2\<bar> \<le> 1"
    using e f g by linarith
  moreover have "\<bar>sin p1 * sin p2 + cos p1 * cos p2 * cos l\<bar>
      \<le> \<bar>sin p1 * sin p2\<bar> + \<bar>cos p1 * cos p2 * cos l\<bar>"
    by (rule abs_triangle_ineq)
  ultimately show ?thesis using d by (simp add: abs_mult)
qed

lemma hav_range:
  fixes p1 p2 l :: real
  defines "a \<equiv> (sin ((p2 - p1) / 2))\<^sup>2 + cos p1 * cos p2 * (sin (l / 2))\<^sup>2"
  shows "0 \<le> a \<and> a \<le> 1"
  using dot_bound [of p1 p2 l] unfolding a_def hav_identity by (simp add: abs_le_iff)

lemma haversine_distance_nonneg: "0 \<le> haversine_distance loc1 loc2"
proof -
  let ?a = "(sin ((radians (lat loc2) - radians (lat loc1)) / 2))\<^sup>2
     + cos (radians (lat loc1)) * cos (radians (lat loc2))
       * (sin ((radians (lon loc2) - radians (lon loc1)) / 2))\<^sup>2"
  have r: "0 \<le> ?a \<and> ?a \<le> 1" by (rule hav_range)
  then have "0 \<le> sqrt ?a" "sqrt ?a \<le> 1" by (simp_all add: real_le_lsqrt)
  then have "0 \<le> arcsin (sqrt ?a)" by (simp add: arcsin_nonneg)
  then show ?thesis by (simp add: haversine_distance_def Let_def EARTH_RADIUS_def)
qed

lemma travel_time_nonneg: "0 \<le> travel_time loc1 loc2"
  using haversine_distance_nonneg [of loc1 loc2]
  by (simp add: travel_time_def Let_def AVG_SPEED_def)

lemma haversine_distance_same_coordinates:
  "lat loc1 = lat loc2 \<Longrightarrow> lon loc1 = lon loc2 \<Longrightarrow> haversine_distance loc1 loc2 = 0"
  by (simp add: haversine_distance_def Let_def)

lemma travel_time_same_coordinates:
  "lat loc1 = lat loc2 \<Longrightarrow> lon loc1 = lon loc2 \<Longrightarrow> travel_time loc1 loc2 = 0"
  by (simp add: travel_time_def haversine_distance_def Let_def)


section \<open>The candidate search reads the state and does not write it\<close>

lemma scan_orders_state: "snd (scan_orders state w orders best) = state"
  by (induction orders arbitrary: best) simp_all

text \<open>
  Claim C10. The state that \<open>find_nearest_valid_location\<close> hands back is the state it
  was given: location, time, picked-up set, delivered set (and the dictionary of arrival
  times) are the same before and after the call, for every state, order list and flag.
\<close>

theorem find_nearest_valid_location_frame:
  "snd (find_nearest_valid_location state orders waiting_required) = state"
  unfolding find_nearest_valid_location_def by (rule scan_orders_state)

theorem find_nearest_valid_location_frame_witness:
  "snd (find_nearest_valid_location (new_state (at_origin ''Driver'') 0)
          [mk_order ''1'' (at_origin ''R1'') 20 (at_origin ''C1'')] True)
   = new_state (at_origin ''Driver'') 0"
  using find_nearest_valid_location_frame
    [of "new_state (at_origin ''Driver'') 0"
        "[mk_order ''1'' (at_origin ''R1'') 20 (at_origin ''C1'')]" True]
  by simp

section \<open>The empty order list\<close>

text \<open>
  Claim C9. For the empty order list \<open>optimize_route\<close> returns the empty route, total
  time 0 and the empty timeline, whatever the fuel: with no fuel at all, so without a single
  pass through the loop body, which is the only place that calls the candidate search.
\<close>

theorem optimize_route_empty:
  "optimize_route fuel driver_location [] = Some (Inr ([], 0, []))"
  by (cases fuel)
     (simp_all add: optimize_route_def initial_vars_def new_state_def loop_cond_def
        result_of_def)

theorem optimize_route_empty_witness:
  "optimize_route 0 (at_origin ''Driver'') [] = Some (Inr ([], 0, []))"
  using optimize_route_empty [of 0 "at_origin ''Driver''"] by simp

section \<open>What the candidate search returns\<close>

lemma checks_take_better:
  "check_delivery state order (check_pickup state w order best)
   = foldl take_better best (order_candidates state w order)"
  by (simp add: check_delivery_def check_pickup_def order_candidates_def take_better_def
      eligible_pickup_def eligible_delivery_def arrival_def Let_def)

lemma scan_orders_foldl:
  "fst (scan_orders state w orders best)
   = foldl take_better best (eligible_candidates state w orders)"
  by (induction orders arbitrary: best)
     (simp_all add: eligible_candidates_def checks_take_better)

lemma take_better_None: "take_better None c = Some c"
  by (simp add: take_better_def)

lemma take_better_Some: "take_better (Some b) c \<noteq> None"
  by (cases "improves (arrival c) (Some b)") (simp_all add: take_better_def)

lemma foldl_take_better_Nil: "foldl take_better None cs = None \<longleftrightarrow> cs = []"
proof (induction cs rule: rev_induct)
  case Nil
  then show ?case by simp
next
  case (snoc c cs)
  show ?case
    by (cases "foldl take_better None cs") (simp_all add: take_better_None take_better_Some)
qed

lemma foldl_take_better_first_nearest:
  "cs \<noteq> [] \<Longrightarrow> \<exists>i. first_nearest cs i \<and> foldl take_better None cs = Some (cs ! i)"
proof (induction cs rule: rev_induct)
  case Nil
  then show ?case by simp
next
  case (snoc c cs)
  show ?case
  proof (cases "cs = []")
    case True
    then have "first_nearest (cs @ [c]) 0" by (simp add: first_nearest_def)
    moreover have "foldl take_better None (cs @ [c]) = Some ((cs @ [c]) ! 0)"
      using True by (simp add: take_better_def)
    ultimately show ?thesis by blast
  next
    case False
    then obtain i where i: "first_nearest cs i" "foldl take_better None cs = Some (cs ! i)"
      using snoc.IH by blast
    then have il: "i < length cs" by (simp add: first_nearest_def)
    obtain l oid t where ci: "cs ! i = (l, oid, t)" by (cases "cs ! i") auto
    show ?thesis
    proof (cases "arrival c < arrival (cs ! i)")
      case True
      have "first_nearest (cs @ [c]) (length cs)"
        unfolding first_nearest_def
      proof (intro conjI allI impI)
        show "length cs < length (cs @ [c])" by simp
      next
        fix j assume "j < length (cs @ [c])"
        then consider "j < length cs" | "j = length cs" by fastforce
        then show "arrival ((cs @ [c]) ! length cs) \<le> arrival ((cs @ [c]) ! j)"
        proof cases
          case 1
          then have "arrival (cs ! i) \<le> arrival (cs ! j)"
            using i(1) by (simp add: first_nearest_def)
          then show ?thesis using True 1 by (simp add: nth_append)
        next
          case 2
          then show ?thesis by simp
        qed
      next
        fix j assume j: "j < length cs"
        then have "arrival (cs ! i) \<le> arrival (cs ! j)"
          using i(1) by (simp add: first_nearest_def)
        then show "arrival ((cs @ [c]) ! length cs) < arrival ((cs @ [c]) ! j)"
          using True j by (simp add: nth_append)
      qed
      moreover have "foldl take_better None (cs @ [c]) = Some ((cs @ [c]) ! length cs)"
        using True i(2) ci by (simp add: take_better_def arrival_def)
      ultimately show ?thesis by blast
    next
      case False
      have "first_nearest (cs @ [c]) i"
        unfolding first_nearest_def
      proof (intro conjI allI impI)
        show "i < length (cs @ [c])" using il by simp
      next
        fix j assume "j < length (cs @ [c])"
        then consider "j < length cs" | "j = length cs" by fastforce
        then show "arrival ((cs @ [c]) ! i) \<le> arrival ((cs @ [c]) ! j)"
        proof cases
          case 1
          then show ?thesis using i(1) il by (simp add: first_nearest_def nth_append)
        next
          case 2
          then show ?thesis using False il by (simp add: nth_append)
        qed
      next
        fix j assume "j < i"
        then show "arrival ((cs @ [c]) ! i) < arrival ((cs @ [c]) ! j)"
          using i(1) il by (simp add: first_nearest_def nth_append)
      qed
      moreover have "foldl take_better None (cs @ [c]) = Some ((cs @ [c]) ! i)"
        using False i(2) ci il by (simp add: take_better_def arrival_def nth_append)
      ultimately show ?thesis by blast
    qed
  qed
qed


lemma travel_time_at_origin: "travel_time (at_origin a) (at_origin b) = 0"
  by (simp add: travel_time_same_coordinates at_origin_def)



section \<open>The pickup rule\<close>

text \<open>
  What line 87 makes of the flag, on the search over one order that is not yet picked up:
  with \<open>waiting_required\<close> false the restaurant is always offered, and with
  \<open>waiting_required\<close> true it is offered only when the arrival is strictly before the
  preparation time.
\<close>

lemma pickup_rule_of_line_87:
  assumes "order_id order \<notin> picked_up_orders state"
  shows "fst (find_nearest_valid_location state [order] waiting_required) =
     (if \<not> waiting_required \<or>
         time state + travel_time (location_st state) (location (restaurant order))
           < prep_time (restaurant order)
      then Some (location (restaurant order), order_id order,
                 time state + travel_time (location_st state) (location (restaurant order)))
      else None)"
  using assms
  by (simp add: find_nearest_valid_location_def check_pickup_def check_delivery_def Let_def)

text \<open>
  Claim C1 says that an order not yet picked up is a pickup candidate exactly when
  \<open>waiting_required\<close> is false and the arrival at the restaurant is strictly before its
  preparation time, or \<open>waiting_required\<close> is true, which lifts the constraint. The code
  has the two values of the flag the other way round. The order below is not picked up, the
  driver reaches its restaurant at minute 0 and the preparation time is 0. With the flag
  set the claim makes the order a candidate, and the search returns nothing; without the
  flag the claim excludes it, and the search returns it.
\<close>

theorem pickup_rule_at_failing_input:
  "order_id (mk_order ''1'' (at_origin ''R1'') 0 (at_origin ''C1''))
     \<notin> picked_up_orders (new_state (at_origin ''Driver'') 0) \<and>
   spec_pickup_rule (new_state (at_origin ''Driver'') 0) True
     (mk_order ''1'' (at_origin ''R1'') 0 (at_origin ''C1'')) \<and>
   fst (find_nearest_valid_location (new_state (at_origin ''Driver'') 0)
          [mk_order ''1'' (at_origin ''R1'') 0 (at_origin ''C1'')] True) = None \<and>
   \<not> spec_pickup_rule (new_state (at_origin ''Driver'') 0) False
     (mk_order ''1'' (at_origin ''R1'') 0 (at_origin ''C1'')) \<and>
   fst (find_nearest_valid_location (new_state (at_origin ''Driver'') 0)
          [mk_order ''1'' (at_origin ''R1'') 0 (at_origin ''C1'')] False)
     = Some (at_origin ''R1'', ''1'', 0)"
  by (simp add: spec_pickup_rule_def find_nearest_valid_location_def check_pickup_def
        check_delivery_def new_state_def mk_order_def travel_time_at_origin)

section \<open>The loop body\<close>

lemma find_nearest_valid_location_state:
  "snd (find_nearest_valid_location state orders w) = state"
  unfolding find_nearest_valid_location_def by (rule scan_orders_state)

lemma select_next_state: "snd (select_next state orders) = state"
proof (cases "find_nearest_valid_location state orders False")
  case (Pair b s1)
  then have s1: "s1 = state"
    using find_nearest_valid_location_state [of state orders False] by simp
  show ?thesis
  proof (cases b)
    case None
    then show ?thesis
      using Pair s1 find_nearest_valid_location_state [of state orders True]
      by (simp add: select_next_def)
  next
    case (Some c)
    then show ?thesis using Pair s1 by (simp add: select_next_def)
  qed
qed

lemma find_nearest_Some_mem:
  assumes "fst (find_nearest_valid_location state orders w) = Some c"
  shows "c \<in> set (eligible_candidates state w orders)"
proof -
  let ?cs = "eligible_candidates state w orders"
  have f: "foldl take_better None ?cs = Some c"
    using assms by (simp add: find_nearest_valid_location_def scan_orders_foldl)
  then have "?cs \<noteq> []" by auto
  then obtain i where "first_nearest ?cs i" "foldl take_better None ?cs = Some (?cs ! i)"
    using foldl_take_better_first_nearest by blast
  then show ?thesis using f by (auto simp: first_nearest_def)
qed

lemma find_nearest_None:
  assumes "fst (find_nearest_valid_location state orders w) = None"
  shows "eligible_candidates state w orders = []"
  using assms by (simp add: find_nearest_valid_location_def scan_orders_foldl foldl_take_better_Nil)

lemma eligible_candidates_mem:
  assumes "c \<in> set (eligible_candidates state w orders)"
  shows "\<exists>ord \<in> set orders.
           (eligible_pickup state w ord \<and>
            c = (location (restaurant ord), order_id ord,
                 time state + travel_time (location_st state) (location (restaurant ord)))) \<or>
           (eligible_delivery state ord \<and>
            c = (customer ord, order_id ord,
                 time state + travel_time (location_st state) (customer ord)))"
  using assms
  by (auto simp: eligible_candidates_def order_candidates_def split: if_splits)

lemma eligible_candidates_Nil:
  assumes "eligible_candidates state False orders = []" "ord \<in> set orders"
  shows "order_id ord \<in> picked_up_orders state \<and> order_id ord \<in> delivered_orders state"
proof -
  have "order_candidates state False ord = []"
    using assms by (auto simp: eligible_candidates_def)
  then show ?thesis
    by (auto simp: order_candidates_def eligible_pickup_def eligible_delivery_def
        split: if_splits)
qed

text \<open>What the two-pass selection returns.\<close>

lemma select_next_Some:
  assumes "select_next state orders = (Some (loc, oid, t), state1)"
  shows "state1 = state \<and> time state \<le> t \<and>
         (\<exists>ord \<in> set orders. order_id ord = oid \<and>
            ((oid \<notin> picked_up_orders state \<and> loc = location (restaurant ord)) \<or>
             (oid \<in> picked_up_orders state \<and> oid \<notin> delivered_orders state \<and>
              loc = customer ord)))"
proof -
  have st: "state1 = state" using select_next_state [of state orders] assms by simp
  obtain w where w: "fst (find_nearest_valid_location state orders w) = Some (loc, oid, t)"
  proof (cases "find_nearest_valid_location state orders False")
    case (Pair b s1)
    then have s1: "s1 = state"
      using find_nearest_valid_location_state [of state orders False] by simp
    show ?thesis
    proof (cases b)
      case None
      then have "find_nearest_valid_location state orders True = (Some (loc, oid, t), state1)"
        using assms Pair s1 by (simp add: select_next_def)
      then show ?thesis using that [of True] by simp
    next
      case (Some c)
      then have "c = (loc, oid, t)" using assms Pair by (simp add: select_next_def)
      then show ?thesis using that [of False] Pair Some by simp
    qed
  qed
  then have "(loc, oid, t) \<in> set (eligible_candidates state w orders)"
    by (rule find_nearest_Some_mem)
  then obtain ord where ord: "ord \<in> set orders"
    "(eligible_pickup state w ord \<and>
       (loc, oid, t) = (location (restaurant ord), order_id ord,
          time state + travel_time (location_st state) (location (restaurant ord)))) \<or>
     (eligible_delivery state ord \<and>
       (loc, oid, t) = (customer ord, order_id ord,
          time state + travel_time (location_st state) (customer ord)))"
    using eligible_candidates_mem by blast
  have "time state \<le> t"
    using ord(2) travel_time_nonneg [of "location_st state" "location (restaurant ord)"]
      travel_time_nonneg [of "location_st state" "customer ord"]
    by auto
  moreover have "order_id ord = oid \<and>
            ((oid \<notin> picked_up_orders state \<and> loc = location (restaurant ord)) \<or>
             (oid \<in> picked_up_orders state \<and> oid \<notin> delivered_orders state \<and>
              loc = customer ord))"
    using ord(2) by (auto simp: eligible_pickup_def eligible_delivery_def)
  ultimately show ?thesis using st ord(1) by blast
qed

lemma select_next_None:
  assumes "select_next state orders = (None, state1)" "ord \<in> set orders"
  shows "state1 = state \<and> order_id ord \<in> picked_up_orders state \<and>
         order_id ord \<in> delivered_orders state"
proof -
  have st: "state1 = state" using select_next_state [of state orders] assms by simp
  have "fst (find_nearest_valid_location state orders False) = None"
  proof (cases "find_nearest_valid_location state orders False")
    case (Pair b s1)
    show ?thesis
    proof (cases b)
      case None
      then show ?thesis using Pair by simp
    next
      case (Some c)
      then show ?thesis using assms(1) Pair by (simp add: select_next_def)
    qed
  qed
  then have "eligible_candidates state False orders = []" by (rule find_nearest_None)
  then show ?thesis using st assms(2) eligible_candidates_Nil by blast
qed

text \<open>
  With line 87 as it is, every candidate of the search with the flag set is a candidate of
  the search without it, so the retry of lines 124--125 never finds a stop: the selection
  is the first search.
\<close>

lemma eligible_candidates_flag:
  assumes "eligible_candidates state False orders = []"
  shows "eligible_candidates state True orders = []"
proof -
  have "\<forall>ord \<in> set orders. order_candidates state False ord = []"
    using assms by (simp add: eligible_candidates_def)
  then have "\<forall>ord \<in> set orders. order_candidates state True ord = []"
    by (auto simp: order_candidates_def eligible_pickup_def split: if_splits)
  then show ?thesis by (simp add: eligible_candidates_def)
qed

lemma select_next_retry_finds_nothing:
  "fst (select_next state orders) = fst (find_nearest_valid_location state orders False)"
proof (cases "find_nearest_valid_location state orders False")
  case (Pair b s1)
  have s1: "s1 = state"
    using find_nearest_valid_location_state [of state orders False] Pair by simp
  show ?thesis
  proof (cases b)
    case None
    then have "eligible_candidates state False orders = []"
      using find_nearest_None [of state orders False] Pair by simp
    then have "eligible_candidates state True orders = []"
      by (rule eligible_candidates_flag)
    then have "fst (find_nearest_valid_location state orders True) = None"
      by (simp add: find_nearest_valid_location_def scan_orders_foldl)
    then show ?thesis using Pair None s1 by (simp add: select_next_def)
  next
    case (Some c)
    then show ?thesis using Pair by (simp add: select_next_def)
  qed
qed

lemma find_distinct:
  assumes "distinct (map order_id orders)" "ord \<in> set orders"
  shows "find (\<lambda>x. order_id x = order_id ord) orders = Some ord"
  using assms
proof (induction orders)
  case Nil
  then show ?case by simp
next
  case (Cons a orders)
  then show ?case by (cases "a = ord") (auto simp: image_iff)
qed

text \<open>The three ways through the loop body, for pairwise distinct identifiers.\<close>

lemma loop_body_cases:
  assumes d: "distinct (map order_id orders)"
  obtains
    (idle) "loop_body orders (state, route, timeline) = Inr (state, route, timeline)"
      "\<forall>ord \<in> set orders. order_id ord \<in> picked_up_orders state \<and>
          order_id ord \<in> delivered_orders state"
  | (pickup) ord t where "ord \<in> set orders" "time state \<le> t"
      "order_id ord \<in> picked_up_orders state \<Longrightarrow>
         order_id ord \<notin> delivered_orders state \<and> customer ord = location (restaurant ord)"
      "loop_body orders (state, route, timeline)
         = Inr (after_pickup (state, route, timeline) ord t)"
  | (delivery) ord t where "ord \<in> set orders" "time state \<le> t"
      "order_id ord \<in> picked_up_orders state" "order_id ord \<notin> delivered_orders state"
      "customer ord \<noteq> location (restaurant ord)"
      "loop_body orders (state, route, timeline)
         = Inr (after_delivery (state, route, timeline) ord t)"
proof (cases "select_next state orders")
  case (Pair b state1)
  have st: "state1 = state" using select_next_state [of state orders] Pair by simp
  show ?thesis
  proof (cases b)
    case None
    then have sel: "select_next state orders = (None, state)" using Pair st by simp
    have "\<forall>ord \<in> set orders. order_id ord \<in> picked_up_orders state \<and>
          order_id ord \<in> delivered_orders state"
      using select_next_None [OF sel] by simp
    moreover have "loop_body orders (state, route, timeline) = Inr (state, route, timeline)"
      using sel by (simp add: loop_body_def)
    ultimately show ?thesis by (rule idle [rotated])
  next
    case (Some c)
    obtain loc oid t where c: "c = (loc, oid, t)" by (cases c) auto
    then have sel: "select_next state orders = (Some (loc, oid, t), state)"
      using Pair Some st by simp
    from select_next_Some [OF sel] obtain ord where
      t: "time state \<le> t" and ord: "ord \<in> set orders"
      and oid: "order_id ord = oid"
      and kind: "(oid \<notin> picked_up_orders state \<and> loc = location (restaurant ord)) \<or>
             (oid \<in> picked_up_orders state \<and> oid \<notin> delivered_orders state \<and>
              loc = customer ord)"
      by blast
    have fnd: "find (\<lambda>x. order_id x = oid) orders = Some ord"
      using find_distinct [OF d ord] oid by simp
    have body: "loop_body orders (state, route, timeline)
        = visit orders (state, route, timeline) (loc, oid, t)"
      using sel by (simp add: loop_body_def)
    show ?thesis
    proof (cases "loc = location (restaurant ord)")
      case True
      have v: "visit orders (state, route, timeline) (loc, oid, t)
          = Inr (after_pickup (state, route, timeline) ord t)"
        using fnd True oid
        by (simp add: visit_def handle_restaurant_def after_pickup_def Let_def)
      have k: "order_id ord \<in> picked_up_orders state \<Longrightarrow>
          order_id ord \<notin> delivered_orders state \<and> customer ord = location (restaurant ord)"
        using kind oid True by auto
      show ?thesis
        by (rule pickup [OF ord t k]) (simp_all add: body v)
    next
      case False
      then have k: "order_id ord \<in> picked_up_orders state"
        "order_id ord \<notin> delivered_orders state" "loc = customer ord"
        using kind oid by auto
      have v: "visit orders (state, route, timeline) (loc, oid, t)
          = Inr (after_delivery (state, route, timeline) ord t)"
        using fnd False oid k
        by (simp add: visit_def handle_customer_def after_delivery_def Let_def)
      have ne: "customer ord \<noteq> location (restaurant ord)" using False k(3) by simp
      show ?thesis
        by (rule delivery [OF ord t k(1) k(2) ne]) (simp add: body v)
    qed
  qed
qed


section \<open>Evaluating runs on the concrete inputs\<close>

lemma at_origin_simps:
  "name (at_origin n) = n" "lat (at_origin n) = 0" "lon (at_origin n) = 0"
  "(at_origin a = at_origin b) = (a = b)"
  by (simp_all add: at_origin_def)

lemma antipode_simps:
  "name (antipode n) = n" "lat (antipode n) = 0" "lon (antipode n) = 180"
  "(antipode a = antipode b) = (a = b)" "at_origin a \<noteq> antipode b" "antipode b \<noteq> at_origin a"
  by (simp_all add: antipode_def at_origin_def)

lemma travel_time_antipode: "travel_time (at_origin a) (antipode b) = 19113 * pi"
  by (simp add: travel_time_def haversine_distance_def Let_def radians_def at_origin_simps
      antipode_simps EARTH_RADIUS_def AVG_SPEED_def)

lemmas run_simps =
  select_next_def find_nearest_valid_location_def check_pickup_def check_delivery_def
  loop_body_def visit_def handle_restaurant_def handle_customer_def loop_cond_def
  loop_turn_def result_of_def
  new_state_def mk_order_def initial_vars_def optimize_route_def
  travel_time_at_origin travel_time_antipode at_origin_simps antipode_simps Let_def

section \<open>The restaurant branch of the loop body\<close>

text \<open>
  Claim C6. In a pass through the loop body in which the selected location is the restaurant
  location of the matching order, \<open>prep_end_time\<close> is the maximum of the arrival time
  and the restaurant's preparation time (an absolute minute, not an offset from the arrival).
  When it is later than the arrival, a waiting event from the arrival time to
  \<open>prep_end_time\<close> is appended and the state's time becomes \<open>prep_end_time\<close>;
  otherwise no waiting event is appended and the time stays the arrival time. In both cases
  the order is then marked picked up and the pickup event carries the state's time.
\<close>

theorem loop_body_restaurant:
  assumes sel: "select_next state orders = (Some (next_loc, oid, arrival_time), state1)"
    and mat: "find (\<lambda>ord. order_id ord = oid) orders = Some matching_order"
    and loc: "next_loc = location (restaurant matching_order)"
  shows "loop_body orders (state, route, timeline) =
     (let prep_end_time = max arrival_time (prep_time (restaurant matching_order))
      in if prep_end_time > arrival_time
         then Inr (state\<lparr>location_st := next_loc, time := prep_end_time,
                     picked_up_orders := insert oid (picked_up_orders state)\<rparr>,
                   route @ [next_loc],
                   timeline @ [Waiting (name next_loc) oid arrival_time prep_end_time,
                               Pickup (name next_loc) oid prep_end_time])
         else Inr (state\<lparr>location_st := next_loc, time := arrival_time,
                     picked_up_orders := insert oid (picked_up_orders state)\<rparr>,
                   route @ [next_loc],
                   timeline @ [Pickup (name next_loc) oid arrival_time]))"
proof -
  have "state1 = state" using select_next_state [of state orders] sel by simp
  then show ?thesis
    using sel mat loc
    by (simp add: loop_body_def visit_def handle_restaurant_def Let_def)
qed


theorem loop_body_restaurant_witness:
  "select_next (new_state (at_origin ''Driver'') 0)
     [mk_order ''1'' (at_origin ''R1'') 20 (at_origin ''C1'')]
   = (Some (at_origin ''R1'', ''1'', 0), new_state (at_origin ''Driver'') 0) \<and>
   find (\<lambda>ord. order_id ord = ''1'') [mk_order ''1'' (at_origin ''R1'') 20 (at_origin ''C1'')]
   = Some (mk_order ''1'' (at_origin ''R1'') 20 (at_origin ''C1'')) \<and>
   at_origin ''R1'' = location (restaurant (mk_order ''1'' (at_origin ''R1'') 20 (at_origin ''C1''))) \<and>
   loop_body [mk_order ''1'' (at_origin ''R1'') 20 (at_origin ''C1'')]
     (new_state (at_origin ''Driver'') 0, [], [])
   = Inr (\<lparr>location_st = at_origin ''R1'', time = 20, picked_up_orders = {''1''},
           delivered_orders = {}, restaurant_arrival_times = Map.empty\<rparr>,
          [at_origin ''R1''],
          [Waiting ''R1'' ''1'' 0 20, Pickup ''R1'' ''1'' 20])"
proof -
  let ?s = "new_state (at_origin ''Driver'') 0"
  let ?o = "mk_order ''1'' (at_origin ''R1'') 20 (at_origin ''C1'')"
  have sel: "select_next ?s [?o] = (Some (at_origin ''R1'', ''1'', 0), ?s)"
    by (simp add: run_simps)
  have mat: "find (\<lambda>ord. order_id ord = ''1'') [?o] = Some ?o"
    by (simp add: mk_order_def)
  have loc: "at_origin ''R1'' = location (restaurant ?o)"
    by (simp add: mk_order_def)
  show ?thesis
    using loop_body_restaurant [OF sel mat loc, of "[]" "[]"] sel mat loc
    by (simp add: new_state_def mk_order_def at_origin_simps Let_def)
qed

section \<open>Invariants of the run\<close>

lemma consistent_initial: "consistent orders (initial_vars driver_location)"
  by (simp add: consistent_def initial_vars_def new_state_def)

lemma consistent_after_pickup:
  assumes c: "consistent orders (state, route, timeline)" and t: "time state \<le> t"
    and o: "ord \<in> set orders"
    and k: "order_id ord \<in> picked_up_orders state \<Longrightarrow> order_id ord \<notin> delivered_orders state"
  shows "consistent orders (after_pickup (state, route, timeline) ord t)"
proof -
  have a: "delivered_orders state \<subseteq> picked_up_orders state"
    and a2: "picked_up_orders state \<subseteq> order_id ` set orders"
    and b: "\<forall>ev \<in> set timeline. event_end ev \<le> time state"
    and b2: "\<forall>ev \<in> set timeline. event_order ev \<in> picked_up_orders state"
    and e: "\<forall>ev \<in> set timeline. is_delivery ev \<longrightarrow> event_order ev \<in> delivered_orders state"
    and g: "\<forall>i \<in> picked_up_orders state. \<exists>ev \<in> set timeline. is_pickup ev \<and> event_order ev = i"
    and h: "\<forall>i \<in> delivered_orders state. \<exists>ev \<in> set timeline. is_delivery ev \<and> event_order ev = i"
    and w: "\<forall>ord \<in> set orders. order_id ord \<in> delivered_orders state
           \<longrightarrow> customer ord \<noteq> location (restaurant ord)"
    and f: "\<forall>p \<in> set timeline. \<forall>d \<in> set timeline.
           is_pickup p \<longrightarrow> is_delivery d \<longrightarrow> event_order p = event_order d
             \<longrightarrow> event_end p \<le> event_end d"
    using c by (simp_all add: consistent_def)
  have nd: "order_id ord \<notin> delivered_orders state"
    using a k by auto
  define pe where "pe = max t (prep_time (restaurant ord))"
  define new where "new =
     (if pe > t then [Waiting (name (location (restaurant ord))) (order_id ord) t pe] else []) @
     [Pickup (name (location (restaurant ord))) (order_id ord) pe]"
  have new: "\<forall>ev \<in> set new. event_end ev = pe \<and> \<not> is_delivery ev \<and>
      event_order ev = order_id ord"
    by (simp add: new_def)
  have newp: "\<exists>ev \<in> set new. is_pickup ev \<and> event_order ev = order_id ord"
    by (simp add: new_def)
  have tp: "time state \<le> pe" using t by (simp add: pe_def)
  have 1: "delivered_orders state \<subseteq> insert (order_id ord) (picked_up_orders state)"
    using a by auto
  have 12: "insert (order_id ord) (picked_up_orders state) \<subseteq> order_id ` set orders"
    using a2 o by auto
  have 2: "\<forall>ev \<in> set (timeline @ new). event_end ev \<le> pe"
    using b tp new by fastforce
  have 22: "\<forall>ev \<in> set (timeline @ new).
      event_order ev \<in> insert (order_id ord) (picked_up_orders state)"
    using b2 new by auto
  have 3: "\<forall>ev \<in> set (timeline @ new). is_delivery ev \<longrightarrow>
      event_order ev \<in> delivered_orders state"
    using e new by auto
  have 5: "\<forall>i \<in> insert (order_id ord) (picked_up_orders state).
      \<exists>ev \<in> set (timeline @ new). is_pickup ev \<and> event_order ev = i"
    using g newp by auto
  have 6: "\<forall>i \<in> delivered_orders state.
      \<exists>ev \<in> set (timeline @ new). is_delivery ev \<and> event_order ev = i"
    using h by auto
  have 4: "\<forall>p \<in> set (timeline @ new). \<forall>d \<in> set (timeline @ new).
           is_pickup p \<longrightarrow> is_delivery d \<longrightarrow> event_order p = event_order d
             \<longrightarrow> event_end p \<le> event_end d"
  proof (intro ballI impI)
    fix p d assume p: "p \<in> set (timeline @ new)" and d: "d \<in> set (timeline @ new)"
      and pd: "is_pickup p" "is_delivery d" "event_order p = event_order d"
    have dt: "d \<in> set timeline" using d pd(2) new by auto
    show "event_end p \<le> event_end d"
    proof (cases "p \<in> set timeline")
      case True
      then show ?thesis using f dt pd by blast
    next
      case False
      then have "event_order p = order_id ord" using p new by auto
      then have "order_id ord \<in> delivered_orders state" using e dt pd by auto
      then show ?thesis using nd by simp
    qed
  qed
  have "after_pickup (state, route, timeline) ord t =
      (state\<lparr>location_st := location (restaurant ord), time := pe,
             picked_up_orders := insert (order_id ord) (picked_up_orders state)\<rparr>,
       route @ [location (restaurant ord)], timeline @ new)"
    by (simp add: after_pickup_def Let_def pe_def new_def)
  then show ?thesis
    unfolding consistent_def using 1 12 2 22 3 4 5 6 w by simp
qed

lemma distinct_order_id:
  assumes "distinct (map order_id orders)" "ord \<in> set orders" "ord' \<in> set orders"
    "order_id ord' = order_id ord"
  shows "ord' = ord"
  using assms by (auto simp: distinct_map dest: inj_onD)

lemma consistent_after_delivery:
  assumes c: "consistent orders (state, route, timeline)" and t: "time state \<le> t"
    and d: "distinct (map order_id orders)" and o: "ord \<in> set orders"
    and k: "order_id ord \<in> picked_up_orders state"
    and ne: "customer ord \<noteq> location (restaurant ord)"
  shows "consistent orders (after_delivery (state, route, timeline) ord t)"
proof -
  have a: "delivered_orders state \<subseteq> picked_up_orders state"
    and a2: "picked_up_orders state \<subseteq> order_id ` set orders"
    and b: "\<forall>ev \<in> set timeline. event_end ev \<le> time state"
    and b2: "\<forall>ev \<in> set timeline. event_order ev \<in> picked_up_orders state"
    and e: "\<forall>ev \<in> set timeline. is_delivery ev \<longrightarrow> event_order ev \<in> delivered_orders state"
    and g: "\<forall>i \<in> picked_up_orders state. \<exists>ev \<in> set timeline. is_pickup ev \<and> event_order ev = i"
    and h: "\<forall>i \<in> delivered_orders state. \<exists>ev \<in> set timeline. is_delivery ev \<and> event_order ev = i"
    and w: "\<forall>ord \<in> set orders. order_id ord \<in> delivered_orders state
           \<longrightarrow> customer ord \<noteq> location (restaurant ord)"
    and f: "\<forall>p \<in> set timeline. \<forall>d \<in> set timeline.
           is_pickup p \<longrightarrow> is_delivery d \<longrightarrow> event_order p = event_order d
             \<longrightarrow> event_end p \<le> event_end d"
    using c by (simp_all add: consistent_def)
  define new where "new = [Delivery (name (customer ord)) (order_id ord) t]"
  have new: "\<forall>ev \<in> set new. event_end ev = t \<and> \<not> is_pickup ev \<and>
      event_order ev = order_id ord"
    by (simp add: new_def)
  have newd: "\<exists>ev \<in> set new. is_delivery ev \<and> event_order ev = order_id ord"
    by (simp add: new_def)
  have 1: "insert (order_id ord) (delivered_orders state) \<subseteq> picked_up_orders state"
    using a k by simp
  have 2: "\<forall>ev \<in> set (timeline @ new). event_end ev \<le> t"
    using b t new by fastforce
  have 22: "\<forall>ev \<in> set (timeline @ new). event_order ev \<in> picked_up_orders state"
    using b2 new k by auto
  have 3: "\<forall>ev \<in> set (timeline @ new). is_delivery ev \<longrightarrow>
      event_order ev \<in> insert (order_id ord) (delivered_orders state)"
    using e new by auto
  have 5: "\<forall>i \<in> picked_up_orders state.
      \<exists>ev \<in> set (timeline @ new). is_pickup ev \<and> event_order ev = i"
    using g by auto
  have 6: "\<forall>i \<in> insert (order_id ord) (delivered_orders state).
      \<exists>ev \<in> set (timeline @ new). is_delivery ev \<and> event_order ev = i"
    using h newd by auto
  have 7: "\<forall>ord' \<in> set orders. order_id ord' \<in> insert (order_id ord) (delivered_orders state)
           \<longrightarrow> customer ord' \<noteq> location (restaurant ord')"
    using w ne distinct_order_id [OF d o] by auto
  have 4: "\<forall>p \<in> set (timeline @ new). \<forall>d \<in> set (timeline @ new).
           is_pickup p \<longrightarrow> is_delivery d \<longrightarrow> event_order p = event_order d
             \<longrightarrow> event_end p \<le> event_end d"
  proof (intro ballI impI)
    fix p d assume p: "p \<in> set (timeline @ new)" and d: "d \<in> set (timeline @ new)"
      and pd: "is_pickup p" "is_delivery d" "event_order p = event_order d"
    have pt: "p \<in> set timeline" using p pd(1) new by auto
    show "event_end p \<le> event_end d"
    proof (cases "d \<in> set timeline")
      case True
      then show ?thesis using f pt pd by blast
    next
      case False
      then have "event_end d = t" using d new by auto
      moreover have "event_end p \<le> t" using 2 pt by simp
      ultimately show ?thesis by simp
    qed
  qed
  have "after_delivery (state, route, timeline) ord t =
      (state\<lparr>location_st := customer ord, time := t,
             delivered_orders := insert (order_id ord) (delivered_orders state)\<rparr>,
       route @ [customer ord], timeline @ new)"
    by (simp add: after_delivery_def new_def)
  then show ?thesis
    unfolding consistent_def using 1 a2 2 22 3 4 5 6 7 by simp
qed

lemma consistent_loop_body:
  assumes d: "distinct (map order_id orders)" and c: "consistent orders vars"
    and b: "loop_body orders vars = Inr vars1"
  shows "consistent orders vars1"
proof -
  obtain state route timeline where v: "vars = (state, route, timeline)"
    by (cases vars) auto
  show ?thesis
    using d
  proof (cases rule: loop_body_cases [where state = state and route = route
        and timeline = timeline])
    case idle
    then show ?thesis using b c v by simp
  next
    case (pickup ord t)
    then show ?thesis
      using b c v consistent_after_pickup [of orders state route timeline t ord] by simp
  next
    case (delivery ord t)
    then show ?thesis
      using b c v d consistent_after_delivery [of orders state route timeline t ord] by simp
  qed
qed

lemma loop_body_no_error:
  assumes d: "distinct (map order_id orders)"
  shows "\<exists>vars1. loop_body orders vars = Inr vars1"
proof -
  obtain state route timeline where v: "vars = (state, route, timeline)"
    by (cases vars) auto
  show ?thesis
    using d
    by (cases rule: loop_body_cases [where state = state and route = route
          and timeline = timeline]) (simp_all add: v del: split_paired_Ex)
qed

lemma consistent_loop_turn:
  assumes "distinct (map order_id orders)" "consistent orders vars"
    "loop_turn orders vars = Inr vars1"
  shows "consistent orders vars1"
  using assms consistent_loop_body by (auto simp: loop_turn_def split: if_splits)

lemma consistent_loop_after:
  assumes d: "distinct (map order_id orders)"
  shows "consistent orders vars \<Longrightarrow> loop_after n orders vars = Inr vars1
    \<Longrightarrow> consistent orders vars1"
proof (induction n arbitrary: vars1)
  case 0
  then show ?case by simp
next
  case (Suc n)
  then show ?case
    using consistent_loop_turn [OF d] by (auto split: sum.splits)
qed

text \<open>Time never goes back, whatever the identifiers.\<close>

lemma loop_body_time:
  assumes "loop_body orders (state, route, timeline) = Inr (state1, route1, timeline1)"
  shows "time state \<le> time state1"
proof (cases "select_next state orders")
  case (Pair b st)
  have st: "st = state" using select_next_state [of state orders] Pair by simp
  show ?thesis
  proof (cases b)
    case None
    then show ?thesis using assms Pair st by (simp add: loop_body_def)
  next
    case (Some c)
    obtain loc oid t where c: "c = (loc, oid, t)" by (cases c) auto
    have sel: "select_next state orders = (Some (loc, oid, t), state)"
      using Pair Some st c by simp
    have t: "time state \<le> t" using select_next_Some [OF sel] by simp
    have "visit orders (state, route, timeline) (loc, oid, t) = Inr (state1, route1, timeline1)"
      using assms sel by (simp add: loop_body_def)
    then show ?thesis using t
      by (auto simp: visit_def handle_restaurant_def handle_customer_def Let_def
          split: option.splits if_splits)
  qed
qed

lemma loop_turn_time:
  assumes "loop_turn orders (state, route, timeline) = Inr (state1, route1, timeline1)"
  shows "time state \<le> time state1"
  using assms loop_body_time by (auto simp: loop_turn_def split: if_splits)

lemma loop_after_time:
  "loop_after (m + k) orders vars = Inr (state1, route1, timeline1) \<Longrightarrow>
   \<exists>state0 route0 timeline0. loop_after m orders vars = Inr (state0, route0, timeline0) \<and>
       time state0 \<le> time state1"
proof (induction k arbitrary: state1 route1 timeline1)
  case 0
  then show ?case by simp
next
  case (Suc k)
  then obtain vars2 where v2: "loop_after (m + k) orders vars = Inr vars2"
    "loop_turn orders vars2 = Inr (state1, route1, timeline1)"
    by (auto split: sum.splits)
  obtain state2 route2 timeline2 where s2: "vars2 = (state2, route2, timeline2)"
    by (cases vars2) auto
  have "time state2 \<le> time state1" using loop_turn_time v2(2) s2 by simp
  moreover obtain state0 route0 timeline0 where
    "loop_after m orders vars = Inr (state0, route0, timeline0)" "time state0 \<le> time state2"
    using Suc.IH v2(1) s2 by blast
  ultimately show ?case by fastforce
qed

text \<open>
  Claim C8, as stated for every run, fails: with two orders of the same identifier, the
  first pass through the body visits the nearer restaurant of the second order, line 133
  finds the first order under that identifier, the locations differ, and the identifier is
  marked delivered without being picked up.
\<close>

theorem state_invariants_counterexample:
  "loop_after (Suc 0)
     [mk_order ''1'' (antipode ''RA'') 0 (at_origin ''CA''),
      mk_order ''1'' (at_origin ''RB'') 0 (at_origin ''CB'')]
     (initial_vars (at_origin ''Driver''))
   = Inr (\<lparr>location_st = at_origin ''RB'', time = 0, picked_up_orders = {},
           delivered_orders = {''1''}, restaurant_arrival_times = Map.empty\<rparr>,
          [at_origin ''RB''], [Delivery ''RB'' ''1'' 0]) \<and>
   \<not> ({''1''} :: string set) \<subseteq> {}"
  by (simp add: run_simps)

text \<open>
  Claim C8, amended: in every state a run goes through, the delivered identifiers are among
  the picked-up ones when the order identifiers are pairwise distinct; and, whatever the
  identifiers, the state's time is at least its time in every earlier state of the run, and
  the arrival time that line 130 assigns is at least the current time.
\<close>

theorem state_invariants:
  assumes run: "loop_after n orders (initial_vars driver_location) = Inr (state, route, timeline)"
  shows "(distinct (map order_id orders) \<longrightarrow>
            delivered_orders state \<subseteq> picked_up_orders state) \<and>
         (\<forall>m \<le> n. \<exists>state0 route0 timeline0.
            loop_after m orders (initial_vars driver_location)
              = Inr (state0, route0, timeline0) \<and>
            time state0 \<le> time state) \<and>
         (\<forall>loc oid t st. select_next state orders = (Some (loc, oid, t), st)
            \<longrightarrow> time state \<le> t)"
proof (intro conjI allI impI)
  assume d: "distinct (map order_id orders)"
  have "consistent orders (state, route, timeline)"
    using consistent_loop_after [OF d consistent_initial run] .
  then show "delivered_orders state \<subseteq> picked_up_orders state"
    by (simp add: consistent_def)
next
  fix m assume "m \<le> n"
  then have "n = m + (n - m)" by simp
  then have "loop_after (m + (n - m)) orders (initial_vars driver_location)
      = Inr (state, route, timeline)" using run by simp
  then show "\<exists>state0 route0 timeline0.
            loop_after m orders (initial_vars driver_location)
              = Inr (state0, route0, timeline0) \<and>
            time state0 \<le> time state"
    by (rule loop_after_time)
next
  fix loc oid t st
  assume "select_next state orders = (Some (loc, oid, t), st)"
  then show "time state \<le> t" using select_next_Some by blast
qed


theorem state_invariants_witness:
  "loop_after (Suc 0) [mk_order ''1'' (at_origin ''R1'') 20 (at_origin ''C1'')]
     (initial_vars (at_origin ''Driver''))
   = Inr (\<lparr>location_st = at_origin ''R1'', time = 20, picked_up_orders = {''1''},
           delivered_orders = {}, restaurant_arrival_times = Map.empty\<rparr>,
          [at_origin ''R1''],
          [Waiting ''R1'' ''1'' 0 20, Pickup ''R1'' ''1'' 20]) \<and>
   distinct (map order_id [mk_order ''1'' (at_origin ''R1'') 20 (at_origin ''C1'')]) \<and>
   ({} :: string set) \<subseteq> {''1''} \<and>
   (\<exists>state0 route0 timeline0.
      loop_after 0 [mk_order ''1'' (at_origin ''R1'') 20 (at_origin ''C1'')]
        (initial_vars (at_origin ''Driver'')) = Inr (state0, route0, timeline0) \<and>
      time state0 \<le> 20)"
proof -
  let ?os = "[mk_order ''1'' (at_origin ''R1'') 20 (at_origin ''C1'')]"
  let ?s1 = "\<lparr>location_st = at_origin ''R1'', time = 20, picked_up_orders = {''1''},
           delivered_orders = {}, restaurant_arrival_times = Map.empty\<rparr>"
  have run: "loop_after (Suc 0) ?os (initial_vars (at_origin ''Driver''))
      = Inr (?s1, [at_origin ''R1''], [Waiting ''R1'' ''1'' 0 20, Pickup ''R1'' ''1'' 20])"
    by (simp add: run_simps)
  have d: "distinct (map order_id ?os)" by simp
  from state_invariants [OF run] d
  have "delivered_orders ?s1 \<subseteq> picked_up_orders ?s1"
    and "\<forall>m \<le> Suc 0. \<exists>state0 route0 timeline0.
            loop_after m ?os (initial_vars (at_origin ''Driver''))
              = Inr (state0, route0, timeline0) \<and> time state0 \<le> time ?s1"
    by blast+
  then show ?thesis using run d by (simp add: initial_vars_def new_state_def)
qed


section \<open>Pickup and delivery times\<close>

lemma optimize_loop_final:
  assumes d: "distinct (map order_id orders)"
  shows "consistent orders vars \<Longrightarrow> optimize_loop fuel orders vars = Some (Inr res) \<Longrightarrow>
     \<exists>vars1. consistent orders vars1 \<and> \<not> loop_cond orders vars1 \<and> res = result_of vars1"
proof (induction fuel arbitrary: vars)
  case 0
  then have "\<not> loop_cond orders vars" "res = result_of vars"
    by (auto split: if_splits)
  then show ?case using 0(1) by blast
next
  case (Suc fuel)
  show ?case
  proof (cases "loop_cond orders vars")
    case True
    obtain vars1 where b: "loop_body orders vars = Inr vars1"
      using loop_body_no_error [OF d] by blast
    then have "optimize_loop fuel orders vars1 = Some (Inr res)"
      using Suc.prems(2) True by simp
    moreover have "consistent orders vars1"
      using consistent_loop_body [OF d Suc.prems(1) b] .
    ultimately show ?thesis using Suc.IH by blast
  next
    case False
    then have "res = result_of vars" using Suc.prems(2) by simp
    then show ?thesis using False Suc.prems(1) by blast
  qed
qed

lemma all_delivered:
  assumes d: "distinct (map order_id orders)"
    and c: "consistent orders (state, route, timeline)"
    and n: "\<not> loop_cond orders (state, route, timeline)"
  shows "delivered_orders state = order_id ` set orders"
    and "picked_up_orders state = order_id ` set orders"
proof -
  have a: "delivered_orders state \<subseteq> picked_up_orders state"
    and a2: "picked_up_orders state \<subseteq> order_id ` set orders"
    using c by (simp_all add: consistent_def)
  have "card (order_id ` set orders) = length orders"
    using d distinct_card [of "map order_id orders"] by simp
  then have "card (order_id ` set orders) \<le> card (delivered_orders state)"
    using n by (simp add: loop_cond_def)
  moreover have "delivered_orders state \<subseteq> order_id ` set orders" using a a2 by blast
  ultimately show "delivered_orders state = order_id ` set orders"
    using card_seteq [of "order_id ` set orders" "delivered_orders state"] by simp
  then show "picked_up_orders state = order_id ` set orders" using a a2 by blast
qed

text \<open>
  Claim C4, as stated, fails: a customer at the coordinates of the restaurant is reached in
  no time, so the delivery carries the time of the pickup, which is not strictly less.
\<close>

theorem pickup_before_delivery_counterexample:
  "distinct (map order_id [mk_order ''1'' (at_origin ''R1'') 20 (at_origin ''C1'')]) \<and>
   optimize_route (Suc (Suc 0)) (at_origin ''Driver'')
     [mk_order ''1'' (at_origin ''R1'') 20 (at_origin ''C1'')]
   = Some (Inr ([at_origin ''R1'', at_origin ''C1''], 20,
       [Waiting ''R1'' ''1'' 0 20, Pickup ''R1'' ''1'' 20, Delivery ''C1'' ''1'' 20])) \<and>
   \<not> (20 :: real) < 20"
  by (simp add: run_simps)

text \<open>
  Claim C4, amended: for pairwise distinct identifiers, every order identifier that appears
  in the returned timeline has a pickup event and a delivery event there, and the time of a
  pickup event of the order is less than or equal to the time of a delivery event of the
  same order.
\<close>

theorem pickup_not_after_delivery:
  assumes d: "distinct (map order_id orders)"
    and r: "optimize_route fuel driver_location orders = Some (Inr (route, total_time, timeline))"
    and ev: "ev \<in> set timeline" "event_order ev = oid"
  shows "(\<exists>l tp. Pickup l oid tp \<in> set timeline) \<and>
         (\<exists>l td. Delivery l oid td \<in> set timeline) \<and>
         (\<forall>l tp l' td. Pickup l oid tp \<in> set timeline \<longrightarrow> Delivery l' oid td \<in> set timeline
            \<longrightarrow> tp \<le> td)"
proof -
  obtain vars1 where v: "consistent orders vars1" "\<not> loop_cond orders vars1"
    "(route, total_time, timeline) = result_of vars1"
    using optimize_loop_final [OF d consistent_initial] r
    unfolding optimize_route_def by blast
  obtain state where s: "vars1 = (state, route, timeline)"
    using v(3) by (cases vars1) (simp add: result_of_def)
  have c: "consistent orders (state, route, timeline)" using v(1) s by simp
  have full: "delivered_orders state = order_id ` set orders"
    "picked_up_orders state = order_id ` set orders"
    using all_delivered [OF d c] v(2) s by simp_all
  have b2: "\<forall>ev \<in> set timeline. event_order ev \<in> picked_up_orders state"
    and g: "\<forall>i \<in> picked_up_orders state. \<exists>ev \<in> set timeline. is_pickup ev \<and> event_order ev = i"
    and h: "\<forall>i \<in> delivered_orders state. \<exists>ev \<in> set timeline. is_delivery ev \<and> event_order ev = i"
    and f: "\<forall>p \<in> set timeline. \<forall>d \<in> set timeline.
           is_pickup p \<longrightarrow> is_delivery d \<longrightarrow> event_order p = event_order d
             \<longrightarrow> event_end p \<le> event_end d"
    using c by (simp_all add: consistent_def)
  have oid: "oid \<in> picked_up_orders state" "oid \<in> delivered_orders state"
    using b2 ev full by auto
  obtain p where p: "p \<in> set timeline" "is_pickup p" "event_order p = oid"
    using g oid(1) by blast
  obtain l tp where "p = Pickup l oid tp" using p(2,3) by (cases p) auto
  then have 1: "\<exists>l tp. Pickup l oid tp \<in> set timeline" using p(1) by blast
  obtain dv where dv: "dv \<in> set timeline" "is_delivery dv" "event_order dv = oid"
    using h oid(2) by blast
  obtain l' td where "dv = Delivery l' oid td" using dv(2,3) by (cases dv) auto
  then have 2: "\<exists>l td. Delivery l oid td \<in> set timeline" using dv(1) by blast
  have 3: "\<forall>l tp l' td. Pickup l oid tp \<in> set timeline \<longrightarrow> Delivery l' oid td \<in> set timeline
            \<longrightarrow> tp \<le> td"
  proof (intro allI impI)
    fix l tp l' td
    assume "Pickup l oid tp \<in> set timeline" "Delivery l' oid td \<in> set timeline"
    then have "event_end (Pickup l oid tp) \<le> event_end (Delivery l' oid td)"
      using f by fastforce
    then show "tp \<le> td" by simp
  qed
  show ?thesis using 1 2 3 by blast
qed

theorem pickup_not_after_delivery_witness:
  "distinct (map order_id [mk_order ''1'' (at_origin ''R1'') 20 (antipode ''C1'')]) \<and>
   optimize_route (Suc (Suc 0)) (at_origin ''Driver'')
     [mk_order ''1'' (at_origin ''R1'') 20 (antipode ''C1'')]
   = Some (Inr ([at_origin ''R1'', antipode ''C1''], 20 + 19113 * pi,
       [Waiting ''R1'' ''1'' 0 20, Pickup ''R1'' ''1'' 20,
        Delivery ''C1'' ''1'' (20 + 19113 * pi)])) \<and>
   (20 :: real) \<le> 20 + 19113 * pi"
proof -
  let ?os = "[mk_order ''1'' (at_origin ''R1'') 20 (antipode ''C1'')]"
  let ?tl = "[Waiting ''R1'' ''1'' 0 20, Pickup ''R1'' ''1'' 20,
        Delivery ''C1'' ''1'' (20 + 19113 * pi)]"
  have d: "distinct (map order_id ?os)" by simp
  have r: "optimize_route (Suc (Suc 0)) (at_origin ''Driver'') ?os
      = Some (Inr ([at_origin ''R1'', antipode ''C1''], 20 + 19113 * pi, ?tl))"
    by (simp add: run_simps)
  have ev: "Pickup ''R1'' ''1'' 20 \<in> set ?tl" "event_order (Pickup ''R1'' ''1'' 20) = ''1''"
    by simp_all
  have "\<forall>l tp l' td. Pickup l ''1'' tp \<in> set ?tl \<longrightarrow> Delivery l' ''1'' td \<in> set ?tl
            \<longrightarrow> tp \<le> td"
    using pickup_not_after_delivery [OF d r ev] by blast
  then have "(20 :: real) \<le> 20 + 19113 * pi" by simp
  then show ?thesis using d r by simp
qed

section \<open>An order delivered to the location of its own restaurant\<close>

text \<open>
  Line 134 tells a pickup from a delivery by comparing the selected location with the
  restaurant's. When the customer of an order is that very location, the delivery of the
  picked-up order is taken for another pickup, and nothing is ever marked delivered.
\<close>

lemma self_delivery_body:
  assumes c: "customer ord = location (restaurant ord)"
    and e: "delivered_orders state = {}"
  shows "\<exists>state1 route1 timeline1.
           loop_body [ord] (state, route, timeline) = Inr (state1, route1, timeline1) \<and>
           delivered_orders state1 = {}"
  using c e
  by (cases "order_id ord \<in> picked_up_orders state")
     (simp_all add: run_simps)

lemma self_delivery_never_returns:
  assumes c: "customer ord = location (restaurant ord)"
  shows "delivered_orders state = {} \<Longrightarrow> optimize_loop fuel [ord] (state, route, timeline) = None"
proof (induction fuel arbitrary: state route timeline)
  case 0
  then show ?case by (simp add: loop_cond_def)
next
  case (Suc fuel)
  obtain state1 route1 timeline1 where
    "loop_body [ord] (state, route, timeline) = Inr (state1, route1, timeline1)"
    "delivered_orders state1 = {}"
    using self_delivery_body [OF c Suc.prems] by blast
  then show ?case using Suc.IH Suc.prems by (simp add: loop_cond_def)
qed

text \<open>
  Claim C2 says that \<open>optimize_route\<close> terminates within \<open>2 * N\<close> passes for
  pairwise distinct identifiers. On the single order below, whose customer is the location
  of its restaurant, the code does not: whatever the fuel, the loop is still running when
  it is used up.
\<close>

theorem optimize_route_self_delivery:
  "optimize_route fuel (at_origin ''Driver'')
     [mk_order ''1'' (at_origin ''Cafe'') 0 (at_origin ''Cafe'')] = None"
  unfolding optimize_route_def initial_vars_def
  by (rule self_delivery_never_returns) (simp_all add: mk_order_def new_state_def)

text \<open>
  Claim C3 says that the returned route has \<open>2 * N\<close> entries and the timeline one
  pickup and one delivery per order. On the same single order the run has, after three
  passes, a route of three entries and three pickup events of the one order, no delivery,
  and the loop condition still holds.
\<close>

theorem self_delivery_run:
  "loop_after (Suc (Suc (Suc 0))) [mk_order ''1'' (at_origin ''Cafe'') 0 (at_origin ''Cafe'')]
     (initial_vars (at_origin ''Driver''))
   = Inr (\<lparr>location_st = at_origin ''Cafe'', time = 0, picked_up_orders = {''1''},
           delivered_orders = {}, restaurant_arrival_times = Map.empty\<rparr>,
          [at_origin ''Cafe'', at_origin ''Cafe'', at_origin ''Cafe''],
          [Pickup ''Cafe'' ''1'' 0, Pickup ''Cafe'' ''1'' 0, Pickup ''Cafe'' ''1'' 0]) \<and>
   loop_cond [mk_order ''1'' (at_origin ''Cafe'') 0 (at_origin ''Cafe'')]
     (\<lparr>location_st = at_origin ''Cafe'', time = 0, picked_up_orders = {''1''},
           delivered_orders = {}, restaurant_arrival_times = Map.empty\<rparr>,
          [at_origin ''Cafe'', at_origin ''Cafe'', at_origin ''Cafe''],
          [Pickup ''Cafe'' ''1'' 0, Pickup ''Cafe'' ''1'' 0, Pickup ''Cafe'' ''1'' 0])"
  by (simp add: run_simps)

section \<open>Orders with separate stops\<close>

text \<open>
  For pairwise distinct identifiers and orders whose customer is not the location of their
  restaurant, \<open>2 * N\<close> passes suffice and the result covers the orders; and for
  pairwise distinct identifiers, a run that returns was on such orders.
\<close>

lemma tidy_initial: "tidy (initial_vars driver_location)"
  by (simp add: tidy_def initial_vars_def pickup_ids_def delivery_ids_def)

lemma pickup_ids_set:
  assumes "consistent orders (state, route, timeline)"
  shows "set (pickup_ids timeline) = picked_up_orders state"
proof -
  have b2: "\<forall>ev \<in> set timeline. event_order ev \<in> picked_up_orders state"
    and g: "\<forall>i \<in> picked_up_orders state. \<exists>ev \<in> set timeline. is_pickup ev \<and> event_order ev = i"
    using assms by (simp_all add: consistent_def)
  show ?thesis
  proof
    show "set (pickup_ids timeline) \<subseteq> picked_up_orders state"
      using b2 by (auto simp: pickup_ids_def)
    show "picked_up_orders state \<subseteq> set (pickup_ids timeline)"
      using g by (fastforce simp: pickup_ids_def)
  qed
qed

lemma delivery_ids_set:
  assumes "consistent orders (state, route, timeline)"
  shows "set (delivery_ids timeline) = delivered_orders state"
proof -
  have e: "\<forall>ev \<in> set timeline. is_delivery ev \<longrightarrow> event_order ev \<in> delivered_orders state"
    and h: "\<forall>i \<in> delivered_orders state. \<exists>ev \<in> set timeline. is_delivery ev \<and> event_order ev = i"
    using assms by (simp_all add: consistent_def)
  show ?thesis
  proof
    show "set (delivery_ids timeline) \<subseteq> delivered_orders state"
      using e by (auto simp: delivery_ids_def)
    show "delivered_orders state \<subseteq> set (delivery_ids timeline)"
      using h by (fastforce simp: delivery_ids_def)
  qed
qed

lemma tidy_after_pickup:
  assumes t: "tidy (state, route, timeline)"
    and c: "consistent orders (state, route, timeline)"
    and n: "order_id ord \<notin> picked_up_orders state"
  shows "tidy (after_pickup (state, route, timeline) ord t)"
proof -
  have "order_id ord \<notin> set (pickup_ids timeline)"
    using pickup_ids_set [OF c] n by simp
  then show ?thesis
    using t by (simp add: tidy_def after_pickup_def Let_def pickup_ids_def delivery_ids_def)
qed

lemma tidy_after_delivery:
  assumes t: "tidy (state, route, timeline)"
    and c: "consistent orders (state, route, timeline)"
    and n: "order_id ord \<notin> delivered_orders state"
  shows "tidy (after_delivery (state, route, timeline) ord t)"
proof -
  have "order_id ord \<notin> set (delivery_ids timeline)"
    using delivery_ids_set [OF c] n by simp
  then show ?thesis
    using t by (simp add: tidy_def after_delivery_def pickup_ids_def delivery_ids_def)
qed

lemma card_order_ids:
  "distinct (map order_id orders) \<Longrightarrow> card (order_id ` set orders) = length orders"
  using distinct_card [of "map order_id orders"] by simp

text \<open>With separate stops every pass through the body visits one more stop.\<close>

lemma loop_body_progress:
  assumes d: "distinct (map order_id orders)" and w: "separate_stops orders"
    and c: "consistent orders (state, route, timeline)"
    and t: "tidy (state, route, timeline)"
    and l: "loop_cond orders (state, route, timeline)"
  shows "\<exists>state1 route1 timeline1.
           loop_body orders (state, route, timeline) = Inr (state1, route1, timeline1) \<and>
           consistent orders (state1, route1, timeline1) \<and>
           tidy (state1, route1, timeline1) \<and>
           length route1 = Suc (length route)"
  using d
proof (cases rule: loop_body_cases [where state = state and route = route
        and timeline = timeline])
  case idle
  have a: "delivered_orders state \<subseteq> picked_up_orders state"
    and a2: "picked_up_orders state \<subseteq> order_id ` set orders"
    using c by (simp_all add: consistent_def)
  have "finite (delivered_orders state)"
    using a a2 finite_subset [of _ "order_id ` set orders"] by blast
  moreover have "order_id ` set orders \<subseteq> delivered_orders state"
    using idle(2) by auto
  ultimately have "card (order_id ` set orders) \<le> card (delivered_orders state)"
    by (rule card_mono)
  then have False using l card_order_ids [OF d] by (simp add: loop_cond_def)
  then show ?thesis ..
next
  case (pickup ord t')
  have n: "order_id ord \<notin> picked_up_orders state"
    using pickup(1,3) w by (auto simp: separate_stops_def)
  have 1: "consistent orders (after_pickup (state, route, timeline) ord t')"
    using consistent_after_pickup [OF c pickup(2) pickup(1)] n by simp
  have 2: "tidy (after_pickup (state, route, timeline) ord t')"
    using tidy_after_pickup [OF t c n] .
  obtain state1 route1 timeline1 where
    v: "after_pickup (state, route, timeline) ord t' = (state1, route1, timeline1)"
    by (cases "after_pickup (state, route, timeline) ord t'") auto
  then have "length route1 = Suc (length route)"
    by (auto simp: after_pickup_def Let_def)
  then show ?thesis using 1 2 v pickup(4) by simp
next
  case (delivery ord t')
  have 1: "consistent orders (after_delivery (state, route, timeline) ord t')"
    using consistent_after_delivery [OF c delivery(2) d delivery(1) delivery(3) delivery(5)] .
  have 2: "tidy (after_delivery (state, route, timeline) ord t')"
    using tidy_after_delivery [OF t c delivery(4)] .
  obtain state1 route1 timeline1 where
    v: "after_delivery (state, route, timeline) ord t' = (state1, route1, timeline1)"
    by (cases "after_delivery (state, route, timeline) ord t'") auto
  then have "length route1 = Suc (length route)"
    by (auto simp: after_delivery_def)
  then show ?thesis using 1 2 v delivery(6) by simp
qed

lemma route_length:
  assumes d: "distinct (map order_id orders)"
    and c: "consistent orders (state, route, timeline)"
    and t: "tidy (state, route, timeline)"
  shows "length route = card (picked_up_orders state) + card (delivered_orders state)"
    and "card (picked_up_orders state) \<le> length orders"
proof -
  have dp: "distinct (pickup_ids timeline)" and dd: "distinct (delivery_ids timeline)"
    and len: "length route = length (pickup_ids timeline) + length (delivery_ids timeline)"
    using t by (simp_all add: tidy_def)
  have "card (picked_up_orders state) = length (pickup_ids timeline)"
    using distinct_card [OF dp] pickup_ids_set [OF c] by simp
  moreover have "card (delivered_orders state) = length (delivery_ids timeline)"
    using distinct_card [OF dd] delivery_ids_set [OF c] by simp
  ultimately show "length route = card (picked_up_orders state) + card (delivered_orders state)"
    using len by simp
  have "picked_up_orders state \<subseteq> order_id ` set orders"
    using c by (simp add: consistent_def)
  then have "card (picked_up_orders state) \<le> card (order_id ` set orders)"
    by (simp add: card_mono)
  then show "card (picked_up_orders state) \<le> length orders"
    using card_order_ids [OF d] by simp
qed

lemma complete_at_exit:
  assumes d: "distinct (map order_id orders)"
    and c: "consistent orders (state, route, timeline)"
    and t: "tidy (state, route, timeline)"
    and n: "\<not> loop_cond orders (state, route, timeline)"
  shows "complete orders (result_of (state, route, timeline))"
proof -
  have full: "delivered_orders state = order_id ` set orders"
    "picked_up_orders state = order_id ` set orders"
    using all_delivered [OF d c n] by simp_all
  have "length route = card (order_id ` set orders) + card (order_id ` set orders)"
    using route_length(1) [OF d c t] full by simp
  then have "length route = 2 * length orders"
    using card_order_ids [OF d] by simp
  then show ?thesis
    using t pickup_ids_set [OF c] delivery_ids_set [OF c] full
    by (simp add: complete_def result_of_def tidy_def)
qed

lemma run_to_completion:
  assumes d: "distinct (map order_id orders)" and w: "separate_stops orders"
  shows "consistent orders (state, route, timeline) \<Longrightarrow> tidy (state, route, timeline) \<Longrightarrow>
     2 * length orders \<le> fuel + length route \<Longrightarrow>
     \<exists>res. optimize_loop fuel orders (state, route, timeline) = Some (Inr res) \<and>
           complete orders res"
proof (induction fuel arbitrary: state route timeline)
  case 0
  have "\<not> loop_cond orders (state, route, timeline)"
  proof
    assume l: "loop_cond orders (state, route, timeline)"
    have "length route < 2 * length orders"
      using route_length [OF d "0.prems"(1) "0.prems"(2)] l by (simp add: loop_cond_def)
    then show False using "0.prems"(3) by simp
  qed
  then show ?case
    using complete_at_exit [OF d "0.prems"(1) "0.prems"(2)] by simp
next
  case (Suc fuel)
  show ?case
  proof (cases "loop_cond orders (state, route, timeline)")
    case True
    obtain state1 route1 timeline1 where
      b: "loop_body orders (state, route, timeline) = Inr (state1, route1, timeline1)"
      and c1: "consistent orders (state1, route1, timeline1)"
      and t1: "tidy (state1, route1, timeline1)"
      and l1: "length route1 = Suc (length route)"
      using loop_body_progress [OF d w Suc.prems(1) Suc.prems(2) True] by blast
    have "2 * length orders \<le> fuel + length route1" using Suc.prems(3) l1 by simp
    then obtain res where
      "optimize_loop fuel orders (state1, route1, timeline1) = Some (Inr res)"
      "complete orders res"
      using Suc.IH [OF c1 t1] by blast
    then show ?thesis using True b by simp
  next
    case False
    then show ?thesis
      using complete_at_exit [OF d Suc.prems(1) Suc.prems(2)] by simp
  qed
qed

lemma optimize_route_separate_stops:
  assumes "distinct (map order_id orders)" "separate_stops orders"
  shows "\<exists>res. optimize_route (2 * length orders) driver_location orders = Some (Inr res) \<and>
           complete orders res"
proof -
  have "consistent orders (new_state driver_location 0, [], [])"
    "tidy (new_state driver_location 0, [], [])"
    using consistent_initial [of orders driver_location] tidy_initial [of driver_location]
    by (simp_all add: initial_vars_def)
  then show ?thesis
    unfolding optimize_route_def initial_vars_def
    using run_to_completion [OF assms, of "new_state driver_location 0" "[]" "[]"
        "2 * length orders"]
    by simp
qed

lemma optimize_loop_more_fuel:
  "optimize_loop fuel orders vars = Some r \<Longrightarrow> optimize_loop (fuel + k) orders vars = Some r"
proof (induction fuel arbitrary: vars)
  case 0
  then show ?case by (cases k) (auto split: if_splits)
next
  case (Suc fuel)
  then show ?case by (auto split: if_splits sum.splits)
qed

lemma returns_separate_stops:
  assumes d: "distinct (map order_id orders)"
    and r: "optimize_route fuel driver_location orders = Some (Inr res)"
  shows "separate_stops orders"
proof -
  obtain vars1 where v: "consistent orders vars1" "\<not> loop_cond orders vars1"
    using optimize_loop_final [OF d consistent_initial] r
    unfolding optimize_route_def by blast
  obtain state route timeline where s: "vars1 = (state, route, timeline)"
    by (cases vars1) auto
  have c: "consistent orders (state, route, timeline)" using v(1) s by simp
  have "delivered_orders state = order_id ` set orders"
    using all_delivered(1) [OF d c] v(2) s by simp
  moreover have "\<forall>ord \<in> set orders. order_id ord \<in> delivered_orders state
           \<longrightarrow> customer ord \<noteq> location (restaurant ord)"
    using c by (simp add: consistent_def)
  ultimately show ?thesis by (simp add: separate_stops_def)
qed

lemma returns_complete:
  assumes d: "distinct (map order_id orders)"
    and r: "optimize_route fuel driver_location orders = Some (Inr res)"
  shows "complete orders res"
proof -
  have "separate_stops orders" using returns_separate_stops [OF d r] .
  then obtain res' where r': "optimize_route (2 * length orders) driver_location orders
      = Some (Inr res')" and c: "complete orders res'"
    using optimize_route_separate_stops [OF d] by blast
  have "optimize_route (fuel + 2 * length orders) driver_location orders = Some (Inr res)"
    using r optimize_loop_more_fuel unfolding optimize_route_def by blast
  moreover have "optimize_route (2 * length orders + fuel) driver_location orders
      = Some (Inr res')"
    using r' optimize_loop_more_fuel unfolding optimize_route_def by blast
  ultimately have "res = res'" by (simp add: add.commute)
  then show ?thesis using c by simp
qed


end
